theory Spec2Isabelle
  imports Complex_Main "HOL-Library.Sublist"
begin

section \<open>Arrays and the numpy operations of the clipping code\<close>

text \<open>
  The notebooks work on one-dimensional numpy arrays of float64. An array is a list;
  a float is a \<^typ>\<open>real\<close>, so rounding and NaN are outside this development: the
  properties below are about which points are kept, how often the model is fitted and
  what the loops hand on, not about the last bits of a number.
\<close>

datatype error =
    FitError      \<comment> \<open>an exception out of the external modelling library\<close>
  | ValueError    \<comment> \<open>numpy: operands could not be broadcast together\<close>
  | IndexError    \<comment> \<open>numpy: boolean index did not match the indexed array\<close>

text \<open>\<^verbatim>\<open>mask.sum()\<close> for a boolean array.\<close>

definition count_true :: "bool list \<Rightarrow> nat" where
  "count_true m = length (filter (\<lambda>b. b) m)"

text \<open>\<^verbatim>\<open>a[mask]\<close> for a boolean \<^verbatim>\<open>mask\<close> as long as \<^verbatim>\<open>a\<close>; every caller checks the
  lengths first, since numpy raises IndexError when they differ.\<close>

definition bool_index :: "'a list \<Rightarrow> bool list \<Rightarrow> 'a list" where
  "bool_index a m = map fst (filter snd (zip a m))"

text \<open>\<^verbatim>\<open>mask[mask] = v\<close>: the entries of \<^verbatim>\<open>mask\<close> that are True are overwritten, in order,
  by the entries of \<^verbatim>\<open>v\<close>. Callers check that \<^verbatim>\<open>v\<close> has one entry per True (numpy raises
  ValueError otherwise), so the third equation is never reached.\<close>

fun mask_assign :: "bool list \<Rightarrow> bool list \<Rightarrow> bool list" where
  "mask_assign [] v = []"
| "mask_assign (False # m) v = False # mask_assign m v"
| "mask_assign (True # m) [] = False # mask_assign m []"
| "mask_assign (True # m) (b # v) = b # mask_assign m v"

text \<open>\<^verbatim>\<open>np.median\<close>: the middle element of the sorted array, the mean of the two middle
  elements when the length is even. On an empty array numpy returns nan; the value is
  only ever compared against the elements of the same empty array, so the stand-in 0
  is never looked at.\<close>

definition median :: "real list \<Rightarrow> real" where
  "median a =
     (let s = sort a; n = length a in
      if n = 0 then 0
      else if odd n then s ! (n div 2)
      else (s ! (n div 2 - 1) + s ! (n div 2)) / 2)"

text \<open>
  The clipping lines shared by \<^verbatim>\<open>sigma_clip\<close> of eb.ipynb and by the loop of the
  multi-instrument notebook:
  \<^verbatim>\<open>sigma = np.sqrt(np.median((resid - np.median(resid)) ** 2))\<close> and
  \<^verbatim>\<open>np.abs(resid - np.median(resid)) < 7 * sigma\<close>,
  written with the elementwise array operations the source uses.
\<close>

definition sigma_of :: "real list \<Rightarrow> real" where
  "sigma_of resid = sqrt (median (map (\<lambda>v. v\<^sup>2) (map (\<lambda>r. r - median resid) resid)))"

definition keep_mask :: "real list \<Rightarrow> bool list" where
  "keep_mask resid =
     (let sigma = sigma_of resid
      in map (\<lambda>v. v < 7 * sigma) (map abs (map (\<lambda>r. r - median resid) resid)))"

text \<open>
  The outlier cell of tess.ipynb:
  \<^verbatim>\<open>rms = np.sqrt(np.median(resid ** 2))\<close> and \<^verbatim>\<open>mask = np.abs(resid) < 5 * rms\<close>.
\<close>

definition tess_rms :: "real list \<Rightarrow> real" where
  "tess_rms resid = sqrt (median (map (\<lambda>v. v\<^sup>2) resid))"

definition tess_mask :: "real list \<Rightarrow> bool list" where
  "tess_mask resid = (let rms = tess_rms resid in map (\<lambda>v. v < 5 * rms) (map abs resid))"

text \<open>
  The clipping pass as section 4.2 of the specification words it: the robust scale is
  the square root of the median squared deviation from the median, and a point is kept
  when its absolute deviation from the median is strictly below \<open>k\<close> times the scale.
\<close>

definition spec_scale :: "real list \<Rightarrow> real" where
  "spec_scale resid = sqrt (median (map (\<lambda>r. (r - median resid)\<^sup>2) resid))"

definition spec_mask :: "real \<Rightarrow> real list \<Rightarrow> bool list" where
  "spec_mask k resid = map (\<lambda>r. \<bar>r - median resid\<bar> < k * spec_scale resid) resid"

section \<open>The sigma clipping of eb.ipynb\<close>

text \<open>
  \<^verbatim>\<open>build_model(mask)\<close> reads the mask only through \<^verbatim>\<open>x[mask]\<close>, \<^verbatim>\<open>y[mask]\<close> and
  \<^verbatim>\<open>mask.sum()\<close>; it builds the model, runs the staged optimisation and returns
  \<^verbatim>\<open>(model, map_soln)\<close>, from which \<^verbatim>\<open>sigma_clip\<close> evaluates the prediction
  \<^verbatim>\<open>mdl\<close> at the unmasked times. All of that is the external library's work, so it is
  a parameter here: a function from the selected times and fluxes to the prediction,
  \<open>None\<close> when the library raises.
\<close>

type_synonym lc_fit = "real list \<Rightarrow> real list \<Rightarrow> real list option"

text \<open>What the code after \<^verbatim>\<open>sigma_clip\<close> reads of the returned \<^verbatim>\<open>(model, map_soln)\<close>:
  \<^verbatim>\<open>model.x\<close>, \<^verbatim>\<open>model.y\<close> and the prediction at the solution.\<close>

record fitted =
  model_x :: "real list"
  model_y :: "real list"
  mdl :: "real list"

text \<open>How a loop over \<^verbatim>\<open>range(10)\<close> ends: through its \<^verbatim>\<open>break\<close>, by running out of
  iterations, or with an exception.\<close>

datatype 'a ending = Break 'a | Exhausted 'a | Raised error

text \<open>
  One pass of the loop body, from \<^verbatim>\<open>build_model(mask)\<close> to the assignment
  \<^verbatim>\<open>mask[mask] = ...\<close>. The result is the fitted model and the updated mask. The library
  predicts one value per selected point; a prediction of any other length makes the
  pass raise ValueError (numpy's stretching of an array of length one is not followed).
\<close>

definition clip_pass ::
  "lc_fit \<Rightarrow> real list \<Rightarrow> real list \<Rightarrow> bool list \<Rightarrow> error + (fitted \<times> bool list)" where
  "clip_pass fit x y msk =
     (if length x \<noteq> length msk \<or> length y \<noteq> length msk then Inl IndexError
      else
        (case fit (bool_index x msk) (bool_index y msk) of
           None \<Rightarrow> Inl FitError
         | Some m \<Rightarrow>
             if length m \<noteq> count_true msk then Inl ValueError
             else
               (let resid = map2 (-) (bool_index y msk) m
                in Inr (\<lparr>model_x = bool_index x msk, model_y = bool_index y msk, mdl = m\<rparr>,
                        mask_assign msk (keep_mask resid)))))"

text \<open>
  The loop \<^verbatim>\<open>for i in range(10)\<close> of \<^verbatim>\<open>sigma_clip\<close>, entered at iteration \<open>i\<close> with the
  current \<^verbatim>\<open>mask\<close> and \<^verbatim>\<open>num\<close>. It returns how the loop ended, with the last
  \<^verbatim>\<open>(model, map_soln)\<close> and the local \<^verbatim>\<open>mask\<close>, and the number of passes made (the calls
  of \<^verbatim>\<open>build_model\<close>).
\<close>

function sigma_clip_for ::
  "lc_fit \<Rightarrow> real list \<Rightarrow> real list \<Rightarrow> nat \<Rightarrow> bool list \<Rightarrow> nat
     \<Rightarrow> (fitted \<times> bool list) ending \<times> nat" where
  "sigma_clip_for fit x y i msk num =
     (case clip_pass fit x y msk of
        Inl e \<Rightarrow> (Raised e, Suc i)
      | Inr (ms, msk') \<Rightarrow>
          if num = count_true msk' then (Break (ms, msk'), Suc i)
          else if Suc i < 10 then sigma_clip_for fit x y (Suc i) msk' (count_true msk')
          else (Exhausted (ms, msk'), Suc i))"
  by pat_completeness auto
termination
  by (relation "measure (\<lambda>(fit, x, y, i, msk, num). 10 - i)") auto

declare sigma_clip_for.simps [simp del]

text \<open>\<^verbatim>\<open>sigma_clip()\<close>: \<^verbatim>\<open>mask = np.ones(len(x), dtype=bool)\<close>, \<^verbatim>\<open>num = len(mask)\<close>, then
  the loop. The globals \<^verbatim>\<open>x\<close> and \<^verbatim>\<open>y\<close> are arguments.\<close>

definition sigma_clip ::
  "lc_fit \<Rightarrow> real list \<Rightarrow> real list \<Rightarrow> (fitted \<times> bool list) ending \<times> nat" where
  "sigma_clip fit x y = sigma_clip_for fit x y 0 (replicate (length x) True) (length x)"

section \<open>The clipping loop of the multi-instrument notebook\<close>

text \<open>
  \<^verbatim>\<open>datasets\<close> is an OrderedDict from the instrument name to the list
  \<^verbatim>\<open>[x, y, yerr, texp]\<close>; the loop replaces the first three in place. The dictionary is
  the list of its items in order (its keys are distinct), an item's list a record.
\<close>

record dataset =
  d_x :: "real list"
  d_y :: "real list"
  d_yerr :: "real list"
  d_texp :: real

type_synonym datasets = "(string \<times> dataset) list"

text \<open>
  Each iteration builds the joint model from the current \<^verbatim>\<open>datasets\<close>, runs the staged
  optimisation and evaluates \<^verbatim>\<open>gp_preds_with_mean[name]\<close> at the solution. As for
  eb.ipynb this is a parameter: from the datasets to the prediction of every
  instrument, \<open>None\<close> when the library raises.
\<close>

type_synonym multi_fit = "datasets \<Rightarrow> (string \<Rightarrow> real list) option"

text \<open>A Python loop whose body may raise: the results in order, or the first exception.\<close>

fun collect :: "(error + 'a) list \<Rightarrow> error + 'a list" where
  "collect [] = Inr []"
| "collect (Inl e # rs) = Inl e"
| "collect (Inr a # rs) = (case collect rs of Inl e \<Rightarrow> Inl e | Inr as \<Rightarrow> Inr (a # as))"

text \<open>\<^verbatim>\<open>masks[name]\<close>: the residual \<^verbatim>\<open>datasets[name][1] - mdl\<close> and the clipping lines,
  ValueError when the prediction does not have one value per point.\<close>

definition dataset_mask :: "(string \<Rightarrow> real list) \<Rightarrow> string \<times> dataset \<Rightarrow> error + bool list" where
  "dataset_mask preds nd =
     (let m = preds (fst nd); y = d_y (snd nd)
      in if length m \<noteq> length y then Inl ValueError
         else Inr (keep_mask (map2 (-) y m)))"

text \<open>\<^verbatim>\<open>clipped[name] = num[name] - masks[name].sum()\<close> with
  \<^verbatim>\<open>num[name] = len(datasets[name][0])\<close>: a Python integer, so the difference is not
  truncated at zero.\<close>

definition clipped_of :: "string \<times> dataset \<Rightarrow> bool list \<Rightarrow> int" where
  "clipped_of nd m = int (length (d_x (snd nd))) - int (count_true m)"

text \<open>The three assignments \<^verbatim>\<open>datasets[name][j] = datasets[name][j][masks[name]]\<close>.\<close>

definition apply_mask :: "string \<times> dataset \<Rightarrow> bool list \<Rightarrow> error + (string \<times> dataset)" where
  "apply_mask nd m =
     (let d = snd nd
      in if length (d_x d) \<noteq> length m \<or> length (d_y d) \<noteq> length m \<or> length (d_yerr d) \<noteq> length m
         then Inl IndexError
         else Inr (fst nd, d\<lparr>d_x := bool_index (d_x d) m,
                             d_y := bool_index (d_y d) m,
                             d_yerr := bool_index (d_yerr d) m\<rparr>))"

text \<open>
  One pass of the loop body. The result is the solution's predictions together with
  \<open>None\<close> when the body reaches \<^verbatim>\<open>break\<close>, or the truncated datasets of the
  \<^verbatim>\<open>else\<close> branch.
\<close>

definition multi_pass ::
  "multi_fit \<Rightarrow> datasets \<Rightarrow> error + ((string \<Rightarrow> real list) \<times> datasets option)" where
  "multi_pass fit ds =
     (case fit ds of
        None \<Rightarrow> Inl FitError
      | Some preds \<Rightarrow>
          (case collect (map (dataset_mask preds) ds) of
             Inl e \<Rightarrow> Inl e
           | Inr masks \<Rightarrow>
               if list_all (\<lambda>c. c < 10) (map2 clipped_of ds masks) then Inr (preds, None)
               else
                 (case collect (map2 apply_mask ds masks) of
                    Inl e \<Rightarrow> Inl e
                  | Inr ds' \<Rightarrow> Inr (preds, Some ds'))))"

text \<open>
  The loop \<^verbatim>\<open>for i in range(10)\<close>, entered at iteration \<open>i\<close>. It returns how the loop
  ended, with the \<^verbatim>\<open>datasets\<close> and the last solution the following cells read, and the
  number of passes made.
\<close>

function multi_clip_for ::
  "multi_fit \<Rightarrow> nat \<Rightarrow> datasets \<Rightarrow> (datasets \<times> (string \<Rightarrow> real list)) ending \<times> nat" where
  "multi_clip_for fit i ds =
     (case multi_pass fit ds of
        Inl e \<Rightarrow> (Raised e, Suc i)
      | Inr (preds, None) \<Rightarrow> (Break (ds, preds), Suc i)
      | Inr (preds, Some ds') \<Rightarrow>
          if Suc i < 10 then multi_clip_for fit (Suc i) ds'
          else (Exhausted (ds', preds), Suc i))"
  by pat_completeness auto
termination
  by (relation "measure (\<lambda>(fit, i, ds). 10 - i)") auto

declare multi_clip_for.simps [simp del]

definition multi_clip ::
  "multi_fit \<Rightarrow> datasets \<Rightarrow> (datasets \<times> (string \<Rightarrow> real list)) ending \<times> nat" where
  "multi_clip fit ds = multi_clip_for fit 0 ds"

section \<open>Staged MAP optimisation\<close>

text \<open>
  \<^verbatim>\<open>xo.optimize(start, vars)\<close> belongs to the external library: it takes a point and the
  variables to optimise (all of them when \<^verbatim>\<open>vars\<close> is left out) and returns a point.
  The notebooks chain calls of it from \<^verbatim>\<open>model.test_point\<close>. A variable is its name.
\<close>

type_synonym 'p optimizer = "'p \<Rightarrow> string list option \<Rightarrow> 'p"

text \<open>The chain of \<^verbatim>\<open>build_model\<close> in eb.ipynb.\<close>

definition eb_optimize :: "'p optimizer \<Rightarrow> 'p \<Rightarrow> 'p" where
  "eb_optimize optimize test_point =
     (let map_soln = test_point;
          map_soln = optimize map_soln (Some [''mean_rv'', ''q'']);
          map_soln = optimize map_soln
                       (Some [''mean_rv'', ''sigma_rv1'', ''sigma_rv2'', ''S_tot_rv'', ''ell_rv'']);
          map_soln = optimize map_soln (Some [''mean_lc'', ''R1'', ''k'', ''s'', ''b'']);
          map_soln = optimize map_soln (Some [''mean_lc'', ''R1'', ''k'', ''s'', ''b'', ''u1'', ''u2'']);
          map_soln = optimize map_soln (Some [''mean_lc'', ''sigma_lc'', ''S_tot_lc'', ''ell_lc'']);
          map_soln = optimize map_soln (Some [''t0'', ''period'']);
          map_soln = optimize map_soln None
      in map_soln)"

text \<open>The chain of ttv.ipynb; \<^verbatim>\<open>transit_times\<close> holds the two variables
  \<^verbatim>\<open>tts_0\<close> and \<^verbatim>\<open>tts_1\<close>.\<close>

definition ttv_optimize :: "'p optimizer \<Rightarrow> 'p \<Rightarrow> 'p" where
  "ttv_optimize optimize test_point =
     (let transit_times = [''tts_0'', ''tts_1''];
          map_soln = test_point;
          map_soln = optimize map_soln (Some transit_times);
          map_soln = optimize map_soln (Some [''r'', ''b'']);
          map_soln = optimize map_soln (Some transit_times);
          map_soln = optimize map_soln None
      in map_soln)"

text \<open>
  The chain of the multi-instrument notebook, with its two loops over the instrument
  names. \<^verbatim>\<open>parameters[name]\<close> is \<^verbatim>\<open>[mean, u, approx_depth]\<close> of the instrument's
  submodel and \<^verbatim>\<open>parameters[f"{name}_noise"]\<close> is \<^verbatim>\<open>[sigma, S_tot]\<close>; a variable of a
  submodel carries the submodel's name as a prefix.
\<close>

definition parameters :: "string \<Rightarrow> string list" where
  "parameters name = [name @ ''_mean'', name @ ''_u'', name @ ''_approx_depth'']"

definition noise_parameters :: "string \<Rightarrow> string list" where
  "noise_parameters name = [name @ ''_sigma'', name @ ''_S_tot'']"

definition multi_optimize :: "'p optimizer \<Rightarrow> 'p \<Rightarrow> string list \<Rightarrow> 'p" where
  "multi_optimize optimize test_point names =
     (let map_soln = test_point;
          map_soln = foldl (\<lambda>soln name. optimize soln (Some (parameters name))) map_soln names;
          map_soln = foldl (\<lambda>soln name.
                        optimize (optimize soln (Some (parameters name @ [''dur'', ''b''])))
                                 (Some (noise_parameters name)))
                      map_soln names;
          map_soln = optimize map_soln None
      in map_soln)"

text \<open>
  An optimiser to try the chains on: one parameter, the log-posterior
  \<open>- (\<theta> - 3)\<^sup>2\<close>; a call on a subset of the variables moves the point halfway to
  the maximum, a call on all variables reaches it.
\<close>

definition toy_logp :: "real \<Rightarrow> real" where
  "toy_logp \<theta> = - (\<theta> - 3)\<^sup>2"

definition toy_optimize :: "real optimizer" where
  "toy_optimize \<theta> vars = (case vars of None \<Rightarrow> 3 | Some vs \<Rightarrow> (\<theta> + 3) / 2)"

section \<open>The orchestration script run_notebooks.sh\<close>

text \<open>
  The script is a straight line of commands. A statement is \<^verbatim>\<open>set -e\<close>, a simple command,
  or a list \<^verbatim>\<open>command || true\<close>. What a command does to the file system or the network
  is the environment's business: the model takes the exit status of the command on
  each line as a parameter and keeps the shell's own state, which is whether
  \<^verbatim>\<open>errexit\<close> is set, the lines run so far and the last exit status.
\<close>

datatype stmt = SetErrexit | Simple string | OrTrue string

record shell =
  errexit :: bool
  executed :: "nat list"
  status :: int

definition start :: shell where
  "start = \<lparr>errexit = False, executed = [], status = 0\<rparr>"

text \<open>
  Bash runs the statements in order. With \<^verbatim>\<open>errexit\<close> set the shell exits as soon as a
  simple command returns a nonzero status; a command on the left of \<^verbatim>\<open>||\<close> is exempt,
  and \<^verbatim>\<open>command || true\<close> as a whole returns 0. No statement of the script clears
  \<^verbatim>\<open>errexit\<close> again, and the code that \<^verbatim>\<open>eval\<close> and the conda shell functions run is
  taken not to clear it either. A command substitution inside an assignment gives
  the assignment its status (lines 5 and 21); inside an argument it does not change
  the command's status (line 38).
\<close>

fun run :: "(nat \<Rightarrow> int) \<Rightarrow> (nat \<times> stmt) list \<Rightarrow> shell \<Rightarrow> shell" where
  "run st [] sh = sh"
| "run st ((l, SetErrexit) # rest) sh =
     run st rest (sh\<lparr>errexit := True, executed := executed sh @ [l], status := 0\<rparr>)"
| "run st ((l, Simple c) # rest) sh =
     (let sh' = sh\<lparr>executed := executed sh @ [l], status := st l\<rparr>
      in if st l \<noteq> 0 \<and> errexit sh then sh' else run st rest sh')"
| "run st ((l, OrTrue c) # rest) sh =
     run st rest (sh\<lparr>executed := executed sh @ [l], status := 0\<rparr>)"

text \<open>The statements of run_notebooks.sh with their line numbers (quotation marks and
  the text of the here-document left out of the command strings).\<close>

definition run_notebooks_sh :: "(nat \<times> stmt) list" where
  "run_notebooks_sh =
     [(3, SetErrexit),
      (5, Simple ''__conda_setup=$(conda shell.bash hook 2> /dev/null)''),
      (6, Simple ''eval $__conda_setup''),
      (7, Simple ''unset __conda_setup''),
      (8, Simple ''conda activate base''),
      (10, Simple ''git checkout master''),
      (11, Simple ''git pull origin master''),
      (12, Simple ''rm -rf exoplanet''),
      (13, Simple ''git clone https://github.com/exoplanet-dev/exoplanet.git exoplanet''),
      (15, Simple ''rm -rf env''),
      (16, Simple ''conda env update --prefix ./env -f exoplanet/environment.yml --prune''),
      (17, Simple ''conda activate ./env''),
      (18, Simple ''python -m pip install -U -r requirements-notebooks.txt''),
      (19, Simple ''python -m pip install -e ./exoplanet''),
      (21, Simple ''CACHEDIR=$(pwd)/theano_cache''),
      (22, Simple ''rm -rf $CACHEDIR''),
      (23, Simple ''export THEANO_FLAGS=base_compiledir=$CACHEDIR''),
      (25, OrTrue ''git branch -D auto_notebooks''),
      (26, Simple ''git checkout -b auto_notebooks master''),
      (28, Simple ''cd docs''),
      (29, Simple ''conda env export > auto_environment.yml''),
      (31, Simple ''DISPLAY=:99.0 python run_notebooks.py $*''),
      (33, Simple ''cp notebooks/notebook_setup.py _static/notebooks/notebook_setup.py''),
      (34, Simple ''git add _static/notebooks/notebook_setup.py''),
      (35, Simple ''git add _static/notebooks/*.ipynb''),
      (37, Simple ''git -c user.name=exoplanetbot -c user.email=exoplanetbot commit -am updating notebooks [ci skip]''),
      (38, Simple ''git push -q -f https://dfm:$(cat .github_api_key)@github.com/exoplanet-dev/case-studies.git auto_notebooks''),
      (40, Simple ''cd ..''),
      (41, Simple ''git checkout master''),
      (42, Simple ''conda deactivate''),
      (44, Simple ''mail -s autoexoplanet finished foreman.mackey@gmail.com'')]"

text \<open>The lines of the simple commands (the ones \<^verbatim>\<open>errexit\<close> watches) among some
  statements, and the statements of a script that stand before a given line.\<close>

fun simple_lines :: "(nat \<times> stmt) list \<Rightarrow> nat list" where
  "simple_lines [] = []"
| "simple_lines ((l, Simple c) # rest) = l # simple_lines rest"
| "simple_lines ((l, SetErrexit) # rest) = simple_lines rest"
| "simple_lines ((l, OrTrue c) # rest) = simple_lines rest"

definition before :: "nat \<Rightarrow> (nat \<times> stmt) list \<Rightarrow> (nat \<times> stmt) list" where
  "before l script = takeWhile (\<lambda>p. fst p \<noteq> l) script"

text \<open>Two environments: one in which only the notebook run of line 31 fails, one in
  which only the commit of line 37 fails.\<close>

definition notebooks_fail :: "nat \<Rightarrow> int" where
  "notebooks_fail l = (if l = 31 then 1 else 0)"

definition commit_fails :: "nat \<Rightarrow> int" where
  "commit_fails l = (if l = 37 then 1 else 0)"

section \<open>Predicates of the claims and data to run the loops on\<close>

text \<open>
  A mask is a subset of another when they have the same length and it is True only
  where the other is. A dataset is narrowed from another when each of its three arrays
  is a subsequence of the other's and the exposure time is the same; a dictionary of
  datasets is narrowed when it has the same names in the same order and every dataset
  is.
\<close>

definition mask_subset :: "bool list \<Rightarrow> bool list \<Rightarrow> bool" where
  "mask_subset a b = list_all2 (\<lambda>p q. p \<longrightarrow> q) a b"

definition narrowed :: "dataset \<Rightarrow> dataset \<Rightarrow> bool" where
  "narrowed d' d \<longleftrightarrow>
     subseq (d_x d') (d_x d) \<and> subseq (d_y d') (d_y d) \<and> subseq (d_yerr d') (d_yerr d) \<and>
     d_texp d' = d_texp d"

definition all_narrowed :: "datasets \<Rightarrow> datasets \<Rightarrow> bool" where
  "all_narrowed ds' ds = list_all2 (\<lambda>nd' nd. fst nd' = fst nd \<and> narrowed (snd nd') (snd nd)) ds' ds"

text \<open>
  Idempotence as the specification words it for \<^verbatim>\<open>sigma_clip\<close>: the loop is run again on
  what it returned, that is on \<^verbatim>\<open>model.x\<close> and \<^verbatim>\<open>model.y\<close> of the returned model, and this
  second run clips nothing (its mask ends with every entry True).
\<close>

definition clips_nothing :: "(fitted \<times> bool list) ending \<times> nat \<Rightarrow> bool" where
  "clips_nothing r =
     (case fst r of
        Break (ms, m) \<Rightarrow> list_all (\<lambda>b. b) m
      | Exhausted (ms, m) \<Rightarrow> list_all (\<lambda>b. b) m
      | Raised e \<Rightarrow> False)"

definition idempotent_at :: "lc_fit \<Rightarrow> real list \<Rightarrow> real list \<Rightarrow> bool" where
  "idempotent_at fit x y =
     (case fst (sigma_clip fit x y) of
        Break (ms, m) \<Rightarrow> clips_nothing (sigma_clip fit (model_x ms) (model_y ms))
      | Exhausted (ms, m) \<Rightarrow> clips_nothing (sigma_clip fit (model_x ms) (model_y ms))
      | Raised e \<Rightarrow> True)"

text \<open>The number of data points of all instruments together.\<close>

definition points :: "datasets \<Rightarrow> nat" where
  "points ds = sum_list (map (\<lambda>nd. length (d_y (snd nd))) ds)"

text \<open>
  A fit that predicts zero flux at every time, for either notebook, and data to run the
  loops on. In \<open>cap_y\<close> every point lies beyond seven times the scale of the points
  up to it; \<open>steep_y\<close> and \<open>kepler\<close> have a core, and farther and farther
  pairs of points around it; \<open>kepler_mid\<close> and \<open>kepler_core\<close> are \<open>kepler\<close> without
  its ten outermost and its twenty outermost points; \<open>spike\<close> has a single outlier.
\<close>

definition zero_fit :: lc_fit where
  "zero_fit xs ys = Some (map (\<lambda>_. 0) ys)"

definition cap_x :: "real list" where
  "cap_x = [0, 1, 2, 3, 4, 5, 6, 7, 8, 9, 10, 11, 12]"

definition cap_y :: "real list" where
  "cap_y = [0, 1, 10, 50, 96, 285, 472, 698, 922, 1826, 2728, 3588, 4448]"

definition steep_x :: "real list" where
  "steep_x = [0, 1, 2, 3, 4, 5, 6]"

definition steep_y :: "real list" where
  "steep_y = [- 100, - 10, - 1, 0, 1, 10, 100]"

definition zero_mfit :: multi_fit where
  "zero_mfit ds =
     Some (\<lambda>name. case map_of ds name of None \<Rightarrow> [] | Some d \<Rightarrow> map (\<lambda>_. 0) (d_y d))"

definition kepler :: dataset where
  "kepler =
    \<lparr>d_x = [100, 102, 104, 106, 108, 110, 112, 114, 116, 118, 120, 122, 124, 126, 128,
            130, 132, 134, 136, 138, 140, 142, 144, 146, 148, 150, 152, 154, 156, 158,
            160],
     d_y = [- 10004, - 10003, - 10002, - 10001, - 10000, - 104, - 103, - 102, - 101,
            - 100, - 5, - 4, - 3, - 2, - 1, 0, 1, 2, 3, 4, 5, 100, 101, 102, 103, 104,
            10000, 10001, 10002, 10003, 10004],
     d_yerr = [2, 3, 6, 6, 3, 2, 3, 6, 6, 3, 2, 3, 6, 6, 3, 2, 3, 6, 6, 3, 2, 3, 6, 6,
               3, 2, 3, 6, 6, 3, 2],
     d_texp = 1 / 48\<rparr>"

definition tess :: dataset where
  "tess = \<lparr>d_x = [0, 1, 2, 3, 4], d_y = [- 2, - 1, 0, 1, 2], d_yerr = [1, 1, 1, 1, 1],
            d_texp = 1 / 720\<rparr>"

definition kepler_core :: dataset where
  "kepler_core =
    \<lparr>d_x = [120, 122, 124, 126, 128, 130, 132, 134, 136, 138, 140],
     d_y = [- 5, - 4, - 3, - 2, - 1, 0, 1, 2, 3, 4, 5],
     d_yerr = [2, 3, 6, 6, 3, 2, 3, 6, 6, 3, 2],
     d_texp = 1 / 48\<rparr>"

definition kepler_mid :: dataset where
  "kepler_mid =
    \<lparr>d_x = [110, 112, 114, 116, 118, 120, 122, 124, 126, 128, 130, 132, 134, 136, 138,
            140, 142, 144, 146, 148, 150],
     d_y = [- 104, - 103, - 102, - 101, - 100, - 5, - 4, - 3, - 2, - 1, 0, 1, 2, 3, 4,
            5, 100, 101, 102, 103, 104],
     d_yerr = [2, 3, 6, 6, 3, 2, 3, 6, 6, 3, 2, 3, 6, 6, 3, 2, 3, 6, 6, 3, 2],
     d_texp = 1 / 48\<rparr>"

definition spike :: dataset where
  "spike = \<lparr>d_x = [0, 1, 2], d_y = [0, 1, 100], d_yerr = [1, 1, 1], d_texp = 1 / 48\<rparr>"

section \<open>Properties of the array operations\<close>

lemma length_mask_assign: "length (mask_assign m v) = length m"
  by (induction m v rule: mask_assign.induct) simp_all

lemma mask_assign_subset: "i < length m \<Longrightarrow> mask_assign m v ! i \<Longrightarrow> m ! i"
proof (induction m v arbitrary: i rule: mask_assign.induct)
  case (1 v)
  then show ?case by simp
next
  case (2 m v)
  then show ?case by (cases i) simp_all
next
  case (3 m)
  then show ?case by (cases i) simp_all
next
  case (4 m b v)
  then show ?case by (cases i) simp_all
qed

lemma count_true_Cons: "count_true (b # m) = (if b then Suc (count_true m) else count_true m)"
  by (simp add: count_true_def)

lemma count_true_Nil: "count_true [] = 0"
  by (simp add: count_true_def)

lemma count_true_le: "count_true m \<le> length m"
  by (simp add: count_true_def)

lemma count_true_replicate: "count_true (replicate n True) = n"
  by (simp add: count_true_def)

lemma count_true_mask_assign:
  "length v = count_true m \<Longrightarrow> count_true (mask_assign m v) = count_true v"
  by (induction m v rule: mask_assign.induct) (simp_all add: count_true_Cons count_true_Nil)

lemma count_true_all: "count_true v = length v \<Longrightarrow> v = replicate (length v) True"
proof (induction v)
  case Nil
  then show ?case by simp
next
  case (Cons b v)
  have "count_true v \<le> length v" by (rule count_true_le)
  with Cons show ?case by (cases b) (simp_all add: count_true_Cons)
qed

lemma mask_assign_all_True: "mask_assign m (replicate (count_true m) True) = m"
proof (induction m)
  case Nil
  then show ?case by simp
next
  case (Cons b m)
  then show ?case by (cases b) (simp_all add: count_true_Cons)
qed

lemma length_bool_index: "length a = length m \<Longrightarrow> length (bool_index a m) = count_true m"
proof (induction a m rule: list_induct2')
  case (4 x xs y ys)
  then show ?case by (simp add: bool_index_def count_true_def)
qed (simp_all add: bool_index_def count_true_def)

lemma bool_index_Cons:
  "bool_index (a # as) (b # m) = (if b then a # bool_index as m else bool_index as m)"
  by (simp add: bool_index_def)

lemma bool_index_Nil: "bool_index [] m = []" "bool_index a [] = []"
  by (simp_all add: bool_index_def)

lemma subseq_bool_index: "subseq (bool_index a m) a"
proof (induction a m rule: list_induct2')
  case (4 x xs y ys)
  then show ?case by (auto simp add: bool_index_Cons)
qed (simp_all add: bool_index_Nil)

lemma bool_index_all: "bool_index a (replicate (length a) True) = a"
  by (induction a) (simp_all add: bool_index_Cons bool_index_Nil)

lemma length_keep_mask: "length (keep_mask r) = length r"
  by (simp add: keep_mask_def)

lemma sort_nth_mem: "i < length a \<Longrightarrow> sort a ! i \<in> set a"
  by (metis length_sort nth_mem set_sort)

lemma median_nonneg: "\<forall>v\<in>set a. 0 \<le> v \<Longrightarrow> 0 \<le> median a"
proof (cases "a = []")
  case True
  then show ?thesis by (simp add: median_def)
next
  case False
  assume nn: "\<forall>v\<in>set a. 0 \<le> v"
  from False have n: "0 < length a" by simp
  have a: "0 \<le> sort a ! (length a div 2)"
    using nn n sort_nth_mem [of "length a div 2" a] by simp
  have "length a div 2 - 1 < length a"
    using n by arith
  then have b: "0 \<le> sort a ! (length a div 2 - 1)"
    using nn sort_nth_mem [of "length a div 2 - 1" a] by simp
  from a b n show ?thesis by (simp add: median_def Let_def)
qed

lemma abs_less_mult_sqrt:
  assumes k: "0 \<le> k" and m: "0 \<le> m"
  shows "\<bar>d\<bar> < k * sqrt m \<longleftrightarrow> d\<^sup>2 < k\<^sup>2 * m"
proof -
  have nn: "0 \<le> k * sqrt m" using k m by simp
  have sq: "(k * sqrt m)\<^sup>2 = k\<^sup>2 * m" using m by (simp add: power_mult_distrib)
  have "\<bar>d\<bar> < k * sqrt m \<longleftrightarrow> \<bar>d\<bar>\<^sup>2 < (k * sqrt m)\<^sup>2"
  proof
    assume "\<bar>d\<bar> < k * sqrt m"
    then show "\<bar>d\<bar>\<^sup>2 < (k * sqrt m)\<^sup>2"
      by (intro power_strict_mono) simp_all
  next
    assume "\<bar>d\<bar>\<^sup>2 < (k * sqrt m)\<^sup>2"
    then show "\<bar>d\<bar> < k * sqrt m"
      using nn by (rule power2_less_imp_less)
  qed
  then show ?thesis by (simp add: sq)
qed

lemma keep_mask_code:
  "keep_mask resid =
     map (\<lambda>r. (r - median resid)\<^sup>2 < 49 * median (map (\<lambda>r. (r - median resid)\<^sup>2) resid)) resid"
proof -
  let ?M = "median (map (\<lambda>r. (r - median resid)\<^sup>2) resid)"
  have nn: "0 \<le> ?M" by (rule median_nonneg) simp
  have "\<bar>r - median resid\<bar> < 7 * sqrt ?M \<longleftrightarrow> (r - median resid)\<^sup>2 < 49 * ?M" for r
    using abs_less_mult_sqrt [of 7 ?M "r - median resid"] nn by simp
  then show ?thesis
    by (simp add: keep_mask_def sigma_of_def Let_def comp_def)
qed

section \<open>Evaluating the loops\<close>

text \<open>
  The comparison \<open>\<bar>d\<bar> < k * sqrt m\<close> is the comparison \<open>d\<^sup>2 < k\<^sup>2 * m\<close> of rationals,
  which is how the masks of concrete data are computed below.
\<close>

lemmas eb_eval = sigma_clip_def sigma_clip_for.simps clip_pass_def keep_mask_code median_def
  bool_index_Cons bool_index_Nil count_true_Cons count_true_Nil Let_def zero_fit_def
  power2_eq_square

lemmas multi_eval = multi_clip_def multi_clip_for.simps multi_pass_def dataset_mask_def
  clipped_of_def apply_mask_def keep_mask_code median_def bool_index_Cons bool_index_Nil
  count_true_Cons count_true_Nil Let_def zero_mfit_def power2_eq_square

section \<open>Termination of the clipping loops\<close>

lemma passes_sigma_clip_for:
  "i < 10 \<Longrightarrow> Suc i \<le> snd (sigma_clip_for fit x y i msk num) \<and>
     snd (sigma_clip_for fit x y i msk num) \<le> 10"
proof (induction fit x y i msk num rule: sigma_clip_for.induct)
  case (1 fit x y i msk num)
  note eq = sigma_clip_for.simps [of fit x y i msk num]
  show ?case
  proof (cases "clip_pass fit x y msk")
    case (Inl e)
    with "1.prems" show ?thesis unfolding eq by simp
  next
    case (Inr r)
    obtain ms msk' where r: "r = (ms, msk')" by (cases r)
    show ?thesis
    proof (cases "num \<noteq> count_true msk' \<and> Suc i < 10")
      case True
      then have "Suc (Suc i) \<le> snd (sigma_clip_for fit x y (Suc i) msk' (count_true msk'))
          \<and> snd (sigma_clip_for fit x y (Suc i) msk' (count_true msk')) \<le> 10"
        using "1.IH" [OF Inr r [symmetric]] by simp
      with Inr r True show ?thesis unfolding eq by simp
    next
      case False
      with Inr r "1.prems" show ?thesis unfolding eq by auto
    qed
  qed
qed

lemma passes_multi_clip_for:
  "i < 10 \<Longrightarrow> Suc i \<le> snd (multi_clip_for fit i ds) \<and> snd (multi_clip_for fit i ds) \<le> 10"
proof (induction fit i ds rule: multi_clip_for.induct)
  case (1 fit i ds)
  note eq = multi_clip_for.simps [of fit i ds]
  show ?case
  proof (cases "multi_pass fit ds")
    case (Inl e)
    with "1.prems" show ?thesis unfolding eq by simp
  next
    case (Inr r)
    obtain preds next_ds where r: "r = (preds, next_ds)" by (cases r)
    show ?thesis
    proof (cases next_ds)
      case None
      with Inr r "1.prems" show ?thesis unfolding eq by simp
    next
      case (Some ds')
      show ?thesis
      proof (cases "Suc i < 10")
        case True
        then have "Suc (Suc i) \<le> snd (multi_clip_for fit (Suc i) ds')
            \<and> snd (multi_clip_for fit (Suc i) ds') \<le> 10"
          using "1.IH" [OF Inr r [symmetric] Some] by simp
        with Inr r Some True show ?thesis unfolding eq by simp
      next
        case False
        with Inr r Some "1.prems" show ?thesis unfolding eq by simp
      qed
    qed
  qed
qed

text \<open>
  Claim C1. Whatever the data and whatever the external fit returns, each clipping loop
  makes at least one and at most 10 passes (fit, residuals, mask) and then ends: both
  loops are total functions, and the pass count they return is bounded by the length
  of \<^verbatim>\<open>range(10)\<close>.
\<close>

theorem clipping_makes_at_most_ten_passes:
  "1 \<le> snd (sigma_clip fit x y) \<and> snd (sigma_clip fit x y) \<le> 10 \<and>
   1 \<le> snd (multi_clip mfit ds) \<and> snd (multi_clip mfit ds) \<le> 10"
  using passes_sigma_clip_for [of 0 fit x y "replicate (length x) True" "length x"]
    passes_multi_clip_for [of 0 mfit ds]
  by (simp add: sigma_clip_def multi_clip_def)

section \<open>Clipping only narrows\<close>

lemma mask_subset_trans:
  assumes "mask_subset a b" and "mask_subset b c"
  shows "mask_subset a c"
  using assms unfolding mask_subset_def by (rule list_all2_trans [rotated]) simp

lemma mask_subset_mask_assign: "mask_subset (mask_assign m v) m"
  unfolding mask_subset_def
  by (rule list_all2_all_nthI) (simp_all add: length_mask_assign mask_assign_subset)

lemma clip_pass_Inr:
  assumes "clip_pass fit x y msk = Inr (ms, msk')"
  shows "length x = length msk \<and> length y = length msk \<and>
         fit (bool_index x msk) (bool_index y msk) = Some (mdl ms) \<and>
         length (mdl ms) = count_true msk \<and>
         model_x ms = bool_index x msk \<and> model_y ms = bool_index y msk \<and>
         msk' = mask_assign msk (keep_mask (map2 (-) (model_y ms) (mdl ms)))"
  using assms by (auto simp add: clip_pass_def Let_def split: if_splits option.splits)

lemma clip_pass_subset: "clip_pass fit x y msk = Inr (ms, msk') \<Longrightarrow> mask_subset msk' msk"
  using clip_pass_Inr [of fit x y msk ms msk'] by (simp add: mask_subset_mask_assign)

lemma sigma_clip_for_subset:
  "fst (sigma_clip_for fit x y i msk num) = Break (ms, msk') \<or>
   fst (sigma_clip_for fit x y i msk num) = Exhausted (ms, msk') \<Longrightarrow> mask_subset msk' msk"
proof (induction fit x y i msk num rule: sigma_clip_for.induct)
  case (1 fit x y i msk num)
  note eq = sigma_clip_for.simps [of fit x y i msk num]
  show ?case
  proof (cases "clip_pass fit x y msk")
    case (Inl e)
    with "1.prems" show ?thesis unfolding eq by simp
  next
    case (Inr r)
    obtain ms1 msk1 where r: "r = (ms1, msk1)" by (cases r)
    have sub: "mask_subset msk1 msk" using Inr r by (simp add: clip_pass_subset)
    show ?thesis
    proof (cases "num \<noteq> count_true msk1 \<and> Suc i < 10")
      case True
      with "1.prems" Inr r
      have "fst (sigma_clip_for fit x y (Suc i) msk1 (count_true msk1)) = Break (ms, msk') \<or>
            fst (sigma_clip_for fit x y (Suc i) msk1 (count_true msk1)) = Exhausted (ms, msk')"
        unfolding eq by simp
      then have "mask_subset msk' msk1"
        using "1.IH" [OF Inr r [symmetric]] True by simp
      then show ?thesis using sub by (rule mask_subset_trans)
    next
      case False
      with "1.prems" Inr r have "msk' = msk1" unfolding eq by (auto split: if_splits)
      with sub show ?thesis by simp
    qed
  qed
qed

lemma narrowed_refl: "narrowed d d"
  by (simp add: narrowed_def)

lemma narrowed_trans: "narrowed a b \<Longrightarrow> narrowed b c \<Longrightarrow> narrowed a c"
  unfolding narrowed_def by (auto intro: subseq_order.trans)

lemma all_narrowed_refl: "all_narrowed ds ds"
  by (simp add: all_narrowed_def list_all2_same narrowed_refl)

lemma all_narrowed_trans:
  assumes "all_narrowed a b" and "all_narrowed b c"
  shows "all_narrowed a c"
  using assms unfolding all_narrowed_def
  by (rule list_all2_trans [rotated]) (auto intro: narrowed_trans)

lemma collect_Inr:
  "collect rs = Inr as \<Longrightarrow> list_all2 (\<lambda>r a. r = Inr a) rs as"
proof (induction rs arbitrary: as rule: collect.induct)
  case 1
  then show ?case by simp
next
  case (2 e rs)
  then show ?case by simp
next
  case (3 a rs)
  then show ?case by (cases "collect rs") auto
qed

lemma apply_mask_narrowed:
  "apply_mask nd m = Inr nd' \<Longrightarrow> fst nd' = fst nd \<and> narrowed (snd nd') (snd nd)"
  by (auto simp add: apply_mask_def Let_def narrowed_def subseq_bool_index split: if_splits)

lemma multi_pass_Inr:
  assumes "multi_pass fit ds = Inr (preds, next_ds)"
  shows "fit ds = Some preds \<and>
         (\<exists>masks. collect (map (dataset_mask preds) ds) = Inr masks \<and>
            (if list_all (\<lambda>c. c < 10) (map2 clipped_of ds masks) then next_ds = None
             else \<exists>ds'. collect (map2 apply_mask ds masks) = Inr ds' \<and> next_ds = Some ds'))"
  using assms by (auto simp add: multi_pass_def split: option.splits sum.splits if_splits)

lemma multi_pass_narrowed:
  assumes "multi_pass fit ds = Inr (preds, Some ds')"
  shows "all_narrowed ds' ds"
proof -
  from multi_pass_Inr [OF assms] obtain masks where
    m: "collect (map (dataset_mask preds) ds) = Inr masks" and
    t: "collect (map2 apply_mask ds masks) = Inr ds'"
    by (auto split: if_splits)
  from collect_Inr [OF m] have len: "length masks = length ds"
    by (auto dest: list_all2_lengthD)
  from collect_Inr [OF t]
  have "list_all2 (\<lambda>r a. r = Inr a) (map2 apply_mask ds masks) ds'" .
  then have "list_all2 (\<lambda>p nd'. apply_mask (fst p) (snd p) = Inr nd') (zip ds masks) ds'"
    by (simp add: list_all2_map1 case_prod_beta)
  then have "list_all2 (\<lambda>p nd'. fst nd' = fst (fst p) \<and> narrowed (snd nd') (snd (fst p)))
      (zip ds masks) ds'"
    by (rule list_all2_mono) (simp add: apply_mask_narrowed)
  then have "list_all2 (\<lambda>nd nd'. fst nd' = fst nd \<and> narrowed (snd nd') (snd nd))
      (map fst (zip ds masks)) ds'"
    by (simp add: list_all2_map1)
  then have "list_all2 (\<lambda>nd nd'. fst nd' = fst nd \<and> narrowed (snd nd') (snd nd)) ds ds'"
    using len by simp
  then show ?thesis
    unfolding all_narrowed_def by (simp add: list_all2_conv_all_nth)
qed

lemma multi_clip_for_narrowed:
  "fst (multi_clip_for fit i ds) = Break (ds', preds) \<or>
   fst (multi_clip_for fit i ds) = Exhausted (ds', preds) \<Longrightarrow> all_narrowed ds' ds"
proof (induction fit i ds rule: multi_clip_for.induct)
  case (1 fit i ds)
  note eq = multi_clip_for.simps [of fit i ds]
  show ?case
  proof (cases "multi_pass fit ds")
    case (Inl e)
    with "1.prems" show ?thesis unfolding eq by simp
  next
    case (Inr r)
    obtain p next_ds where r: "r = (p, next_ds)" by (cases r)
    show ?thesis
    proof (cases next_ds)
      case None
      with "1.prems" Inr r have "ds' = ds" unfolding eq by simp
      then show ?thesis by (simp add: all_narrowed_refl)
    next
      case (Some ds1)
      have sub: "all_narrowed ds1 ds" using Inr r Some by (simp add: multi_pass_narrowed)
      show ?thesis
      proof (cases "Suc i < 10")
        case True
        with "1.prems" Inr r Some
        have "fst (multi_clip_for fit (Suc i) ds1) = Break (ds', preds) \<or>
              fst (multi_clip_for fit (Suc i) ds1) = Exhausted (ds', preds)"
          unfolding eq by simp
        then have "all_narrowed ds' ds1"
          using "1.IH" [OF Inr r [symmetric] Some True] by simp
        then show ?thesis using sub by (rule all_narrowed_trans)
      next
        case False
        with "1.prems" Inr r Some have "ds' = ds1" unfolding eq by simp
        with sub show ?thesis by simp
      qed
    qed
  qed
qed

text \<open>
  Claim C2. A pass never re-admits a point. In eb.ipynb the mask after a pass is a
  subset of the mask before it, and the mask any run of the loop ends with is a subset
  of the mask that run started from. In the multi-instrument notebook the datasets
  after a truncating pass are narrowed from the datasets before it, and the datasets
  any run of the loop ends with are narrowed from the ones it started from.
\<close>

theorem clipping_only_narrows:
  "(clip_pass fit x y msk = Inr (ms, msk') \<longrightarrow> mask_subset msk' msk) \<and>
   (fst (sigma_clip_for fit x y i msk num) = Break (ms2, msk2) \<or>
    fst (sigma_clip_for fit x y i msk num) = Exhausted (ms2, msk2) \<longrightarrow> mask_subset msk2 msk) \<and>
   (multi_pass mfit ds = Inr (preds, Some ds') \<longrightarrow> all_narrowed ds' ds) \<and>
   (fst (multi_clip_for mfit j ds) = Break (ds2, preds2) \<or>
    fst (multi_clip_for mfit j ds) = Exhausted (ds2, preds2) \<longrightarrow> all_narrowed ds2 ds)"
  using clip_pass_subset [of fit x y msk ms msk']
    sigma_clip_for_subset [of fit x y i msk num ms2 msk2]
    multi_pass_narrowed [of mfit ds preds ds']
    multi_clip_for_narrowed [of mfit j ds ds2 preds2]
  by blast

theorem clipping_only_narrows_witness:
  "mask_subset [False, True, True, True, True, True, False] [True, True, True, True, True, True, True] \<and>
   mask_subset [False, False, True, True, True, False, False] [True, True, True, True, True, True, True] \<and>
   all_narrowed [(''Kepler'', kepler_mid), (''TESS'', tess)]
                [(''Kepler'', kepler), (''TESS'', tess)] \<and>
   all_narrowed [(''Kepler'', kepler_core), (''TESS'', tess)]
                [(''Kepler'', kepler), (''TESS'', tess)]"
proof -
  let ?ds = "[(''Kepler'', kepler), (''TESS'', tess)]"
  let ?mid = "[(''Kepler'', kepler_mid), (''TESS'', tess)]"
  let ?core = "[(''Kepler'', kepler_core), (''TESS'', tess)]"
  let ?ms = "\<lparr>model_x = steep_x, model_y = steep_y, mdl = [0, 0, 0, 0, 0, 0, 0]\<rparr>"
  let ?ms2 = "\<lparr>model_x = [2, 3, 4], model_y = [- 1, 0, 1], mdl = [0, 0, 0]\<rparr>"
  have a: "clip_pass zero_fit steep_x steep_y [True, True, True, True, True, True, True] =
      Inr (?ms, [False, True, True, True, True, True, False])"
    by (simp add: eb_eval steep_x_def steep_y_def)
  have b: "fst (sigma_clip_for zero_fit steep_x steep_y 0 [True, True, True, True, True, True, True] 7) =
      Break (?ms2, [False, False, True, True, True, False, False])"
    by (simp add: eb_eval steep_x_def steep_y_def)
  have c: "multi_pass zero_mfit ?ds = Inr (the (zero_mfit ?ds), Some ?mid)"
    by (simp add: multi_eval kepler_def tess_def kepler_mid_def)
  have d: "fst (multi_clip_for zero_mfit 0 ?ds) = Break (?core, the (zero_mfit ?core))"
    by (simp add: multi_eval kepler_def tess_def kepler_core_def)
  from clipping_only_narrows [of zero_fit steep_x steep_y "[True, True, True, True, True, True, True]" ?ms
      "[False, True, True, True, True, True, False]" 0 7 ?ms2
      "[False, False, True, True, True, False, False]" zero_mfit ?ds "the (zero_mfit ?ds)" ?mid
      0 ?core "the (zero_mfit ?core)"] a b c d
  show ?thesis by blast
qed

section \<open>The clipping formulas\<close>

lemma keep_mask_spec: "keep_mask resid = spec_mask 7 resid"
  by (simp add: keep_mask_def sigma_of_def spec_mask_def spec_scale_def Let_def comp_def)

lemma spec_mask_code:
  assumes k: "0 \<le> k"
  shows "spec_mask k resid =
     map (\<lambda>r. (r - median resid)\<^sup>2 < k\<^sup>2 * median (map (\<lambda>r. (r - median resid)\<^sup>2) resid)) resid"
proof -
  let ?M = "median (map (\<lambda>r. (r - median resid)\<^sup>2) resid)"
  have nn: "0 \<le> ?M" by (rule median_nonneg) simp
  have "\<bar>r - median resid\<bar> < k * sqrt ?M \<longleftrightarrow> (r - median resid)\<^sup>2 < k\<^sup>2 * ?M" for r
    using k nn by (rule abs_less_mult_sqrt)
  then show ?thesis
    by (simp add: spec_mask_def spec_scale_def)
qed

lemma tess_mask_code:
  "tess_mask resid = map (\<lambda>r. r\<^sup>2 < 25 * median (map (\<lambda>v. v\<^sup>2) resid)) resid"
proof -
  let ?M = "median (map (\<lambda>v. v\<^sup>2) resid)"
  have nn: "0 \<le> ?M" by (rule median_nonneg) simp
  have "\<bar>r\<bar> < 5 * sqrt ?M \<longleftrightarrow> r\<^sup>2 < 25 * ?M" for r
    using abs_less_mult_sqrt [of 5 ?M r] nn by simp
  then show ?thesis
    by (simp add: tess_mask_def tess_rms_def Let_def comp_def)
qed

text \<open>
  Claim C3, as stated, fails for the outlier cell of tess.ipynb: that cell does not
  centre the residuals on their median. On the residuals 10, 11, 12, 13, 20 the
  centred rule of the specification rejects the last point for \<open>k = 5\<close> and for
  \<open>k = 7\<close>, while the cell keeps all five points.
\<close>

theorem tess_cell_does_not_centre:
  "tess_mask [10, 11, 12, 13, 20] = [True, True, True, True, True] \<and>
   spec_mask 5 [10, 11, 12, 13, 20] = [True, True, True, True, False] \<and>
   spec_mask 7 [10, 11, 12, 13, 20] = [True, True, True, True, False] \<and>
   tess_mask [10, 11, 12, 13, 20] \<noteq> spec_mask 5 [10, 11, 12, 13, 20]"
  by (simp add: tess_mask_code spec_mask_code median_def power2_eq_square)

text \<open>
  Claim C3, amended. The two clipping loops (eb.ipynb and the multi-instrument notebook)
  compute the scale and the mask exactly as the specification says, with the
  multiplier 7 and a strict inequality: the mask a pass of either loop produces is the
  specification's mask of the residuals. The cell of tess.ipynb uses the square root of
  the median squared residual, the absolute residual and the multiplier 5, with no
  centring.
\<close>

theorem clipping_formulas:
  "sigma_of resid = spec_scale resid \<and>
   keep_mask resid = spec_mask 7 resid \<and>
   (clip_pass fit x y msk = Inr (ms, msk') \<longrightarrow>
      msk' = mask_assign msk (spec_mask 7 (map2 (-) (bool_index y msk) (mdl ms)))) \<and>
   (dataset_mask preds nd = Inr m \<longrightarrow>
      m = spec_mask 7 (map2 (-) (d_y (snd nd)) (preds (fst nd)))) \<and>
   tess_rms resid = sqrt (median (map (\<lambda>r. r\<^sup>2) resid)) \<and>
   tess_mask resid = map (\<lambda>r. \<bar>r\<bar> < 5 * tess_rms resid) resid"
proof (intro conjI impI)
  show "sigma_of resid = spec_scale resid"
    by (simp add: sigma_of_def spec_scale_def comp_def)
  show "keep_mask resid = spec_mask 7 resid" by (rule keep_mask_spec)
  show "tess_rms resid = sqrt (median (map (\<lambda>r. r\<^sup>2) resid))"
    by (simp add: tess_rms_def)
  show "tess_mask resid = map (\<lambda>r. \<bar>r\<bar> < 5 * tess_rms resid) resid"
    by (simp add: tess_mask_def Let_def comp_def)
next
  assume "clip_pass fit x y msk = Inr (ms, msk')"
  from clip_pass_Inr [OF this]
  show "msk' = mask_assign msk (spec_mask 7 (map2 (-) (bool_index y msk) (mdl ms)))"
    by (simp add: keep_mask_spec)
next
  assume "dataset_mask preds nd = Inr m"
  then show "m = spec_mask 7 (map2 (-) (d_y (snd nd)) (preds (fst nd)))"
    by (auto simp add: dataset_mask_def Let_def keep_mask_spec split: if_splits)
qed

theorem clipping_formulas_witness:
  "sigma_of [10, 11, 12, 13, 20] = spec_scale [10, 11, 12, 13, 20] \<and>
   keep_mask [10, 11, 12, 13, 20] = spec_mask 7 [10, 11, 12, 13, 20] \<and>
   [False, True, True, True, True, True, False] =
     mask_assign [True, True, True, True, True, True, True]
       (spec_mask 7 (map2 (-) steep_y [0, 0, 0, 0, 0, 0, 0])) \<and>
   [True, True, False] = spec_mask 7 (map2 (-) [0, 1, 100] [0, 0, 0]) \<and>
   tess_mask [10, 11, 12, 13, 20] = map (\<lambda>r. \<bar>r\<bar> < 5 * tess_rms [10, 11, 12, 13, 20])
     [10, 11, 12, 13, 20]"
proof -
  let ?ones = "[True, True, True, True, True, True, True]"
  let ?ms = "\<lparr>model_x = steep_x, model_y = steep_y, mdl = [0, 0, 0, 0, 0, 0, 0]\<rparr>"
  let ?m = "[False, True, True, True, True, True, False]"
  let ?p = "\<lambda>name :: string. [0, 0, 0 :: real]"
  have a: "clip_pass zero_fit steep_x steep_y ?ones = Inr (?ms, ?m)"
    by (simp add: eb_eval steep_x_def steep_y_def)
  have b: "dataset_mask ?p (''Kepler'', spike) = Inr [True, True, False]"
    by (simp add: dataset_mask_def keep_mask_code median_def power2_eq_square spike_def)
  have y: "bool_index steep_y ?ones = steep_y"
    by (simp add: steep_y_def bool_index_Cons bool_index_Nil)
  note t = clipping_formulas [of "[10, 11, 12, 13, 20]" zero_fit steep_x steep_y ?ones ?ms ?m
      ?p "(''Kepler'', spike)" "[True, True, False]"]
  from t a have "?m = mask_assign ?ones (spec_mask 7 (map2 (-) (bool_index steep_y ?ones) (mdl ?ms)))"
    by blast
  then have c: "?m = mask_assign ?ones (spec_mask 7 (map2 (-) steep_y [0, 0, 0, 0, 0, 0, 0]))"
    by (simp add: y)
  from t b have "[True, True, False] = spec_mask 7 (map2 (-) (d_y (snd (''Kepler'', spike))) (?p (fst (''Kepler'', spike))))"
    by blast
  then have d: "[True, True, False] = spec_mask 7 (map2 (-) [0, 1, 100] [0, 0, 0])"
    by (simp add: spike_def)
  from t c d show ?thesis by blast
qed

section \<open>Leaving the loop through break\<close>

lemma clip_pass_keeps_all:
  assumes len: "length y = length x"
    and fit: "fit x y = Some m"
    and shape: "length m = length x"
    and keep: "keep_mask (map2 (-) y m) = replicate (length x) True"
  shows "clip_pass fit x y (replicate (length x) True) =
           Inr (\<lparr>model_x = x, model_y = y, mdl = m\<rparr>, replicate (length x) True)"
proof -
  have y: "bool_index y (replicate (length x) True) = y"
    using bool_index_all [of y] len by simp
  have "mask_assign (replicate (length x) True) (replicate (length x) True)
      = replicate (length x) True"
    using mask_assign_all_True [of "replicate (length x) True"]
    by (simp add: count_true_replicate)
  then show ?thesis
    using len fit shape keep y
    by (simp add: clip_pass_def bool_index_all count_true_replicate)
qed

lemma sigma_clip_keeps_all:
  assumes "length y = length x" and "fit x y = Some m" and "length m = length x"
    and "keep_mask (map2 (-) y m) = replicate (length x) True"
  shows "sigma_clip fit x y =
           (Break (\<lparr>model_x = x, model_y = y, mdl = m\<rparr>, replicate (length x) True), 1)"
  using clip_pass_keeps_all [of y x fit m] assms
  by (simp add: sigma_clip_def sigma_clip_for.simps count_true_replicate)

lemma sigma_clip_for_Break:
  "sigma_clip_for fit x y i msk num = (Break (ms, msk'), n) \<Longrightarrow> num = count_true msk
     \<Longrightarrow> \<exists>mb. clip_pass fit x y mb = Inr (ms, msk') \<and> count_true mb = count_true msk'"
proof (induction fit x y i msk num rule: sigma_clip_for.induct)
  case (1 fit x y i msk num)
  note eq = sigma_clip_for.simps [of fit x y i msk num]
  show ?case
  proof (cases "clip_pass fit x y msk")
    case (Inl e)
    with "1.prems" show ?thesis unfolding eq by simp
  next
    case (Inr r)
    obtain ms1 msk1 where r: "r = (ms1, msk1)" by (cases r)
    show ?thesis
    proof (cases "num = count_true msk1")
      case True
      with "1.prems" Inr r have "ms1 = ms" "msk1 = msk'" unfolding eq by simp_all
      with Inr r True "1.prems" show ?thesis by auto
    next
      case False
      show ?thesis
      proof (cases "Suc i < 10")
        case True
        with "1.prems" Inr r False
        have "sigma_clip_for fit x y (Suc i) msk1 (count_true msk1) = (Break (ms, msk'), n)"
          unfolding eq by simp
        then show ?thesis
          using "1.IH" [OF Inr r [symmetric] False True] by simp
      next
        case F: False
        with "1.prems" Inr r False show ?thesis unfolding eq by simp
      qed
    qed
  qed
qed

lemma clip_pass_fixed_point:
  assumes pass: "clip_pass fit x y mb = Inr (ms, msk')"
    and same: "count_true mb = count_true msk'"
  shows "keep_mask (map2 (-) (model_y ms) (mdl ms)) = replicate (length (model_x ms)) True
         \<and> length (model_y ms) = length (model_x ms) \<and> length (mdl ms) = length (model_x ms)
         \<and> fit (model_x ms) (model_y ms) = Some (mdl ms) \<and> msk' = mb"
proof -
  note p = clip_pass_Inr [OF pass]
  let ?keep = "keep_mask (map2 (-) (model_y ms) (mdl ms))"
  have lx: "length (model_x ms) = count_true mb" using p by (simp add: length_bool_index)
  have ly: "length (model_y ms) = count_true mb" using p by (simp add: length_bool_index)
  have lm: "length (mdl ms) = count_true mb" using p by simp
  have lk: "length ?keep = count_true mb" using ly lm by (simp add: length_keep_mask)
  have "count_true msk' = count_true ?keep"
    using p lk count_true_mask_assign [of ?keep mb] by simp
  with same lk have "count_true ?keep = length ?keep" by simp
  from count_true_all [OF this] lk have all: "?keep = replicate (count_true mb) True" by simp
  have "msk' = mb" using p all mask_assign_all_True [of mb] by simp
  with all lx ly lm p show ?thesis by simp
qed

lemma sigma_clip_rerun:
  assumes "sigma_clip fit x y = (Break (ms, msk'), n)"
  shows "sigma_clip fit (model_x ms) (model_y ms) =
           (Break (ms, replicate (length (model_x ms)) True), 1)"
proof -
  from assms have "sigma_clip_for fit x y 0 (replicate (length x) True) (length x)
      = (Break (ms, msk'), n)" by (simp add: sigma_clip_def)
  from sigma_clip_for_Break [OF this] obtain mb where
    "clip_pass fit x y mb = Inr (ms, msk')" and "count_true mb = count_true msk'"
    by (auto simp add: count_true_replicate)
  from clip_pass_fixed_point [OF this]
  have "sigma_clip fit (model_x ms) (model_y ms) =
      (Break (\<lparr>model_x = model_x ms, model_y = model_y ms, mdl = mdl ms\<rparr>,
              replicate (length (model_x ms)) True), 1)"
    by (intro sigma_clip_keeps_all) simp_all
  then show ?thesis by simp
qed

lemma multi_pass_None:
  "multi_pass fit ds = Inr (preds, None) \<longleftrightarrow>
     fit ds = Some preds \<and>
     (\<exists>masks. collect (map (dataset_mask preds) ds) = Inr masks \<and>
        list_all (\<lambda>c. c < 10) (map2 clipped_of ds masks))"
  by (auto simp add: multi_pass_def split: option.splits sum.splits if_splits)

lemma multi_clip_for_break:
  "multi_pass fit ds = Inr (preds, None) \<Longrightarrow> multi_clip_for fit i ds = (Break (ds, preds), Suc i)"
  by (simp add: multi_clip_for.simps)

lemma multi_clip_for_Break:
  "multi_clip_for fit i ds = (Break (ds', preds), n) \<Longrightarrow> multi_pass fit ds' = Inr (preds, None)"
proof (induction fit i ds rule: multi_clip_for.induct)
  case (1 fit i ds)
  note eq = multi_clip_for.simps [of fit i ds]
  show ?case
  proof (cases "multi_pass fit ds")
    case (Inl e)
    with "1.prems" show ?thesis unfolding eq by simp
  next
    case (Inr r)
    obtain p next_ds where r: "r = (p, next_ds)" by (cases r)
    show ?thesis
    proof (cases next_ds)
      case None
      with "1.prems" Inr r show ?thesis unfolding eq by simp
    next
      case (Some ds1)
      show ?thesis
      proof (cases "Suc i < 10")
        case True
        with "1.prems" Inr r Some
        have "multi_clip_for fit (Suc i) ds1 = (Break (ds', preds), n)"
          unfolding eq by simp
        then show ?thesis
          using "1.IH" [OF Inr r [symmetric] Some True] by simp
      next
        case False
        with "1.prems" Inr r Some show ?thesis unfolding eq by simp
      qed
    qed
  qed
qed

lemma collect_all_kept:
  assumes "list_all (\<lambda>nd. length (d_x (snd nd)) = length (d_y (snd nd)) \<and>
              dataset_mask preds nd = Inr (replicate (length (d_y (snd nd))) True)) ds"
  shows "\<exists>masks. collect (map (dataset_mask preds) ds) = Inr masks \<and>
            list_all (\<lambda>c. c = 0) (map2 clipped_of ds masks)"
  using assms
proof (induction ds)
  case Nil
  show ?case by simp
next
  case (Cons nd ds)
  then obtain masks where "collect (map (dataset_mask preds) ds) = Inr masks"
    and "list_all (\<lambda>c. c = 0) (map2 clipped_of ds masks)" by auto
  with Cons.prems show ?case
    by (simp add: clipped_of_def count_true_replicate)
qed

text \<open>
  Claim C5. If the first pass keeps every point, the loop makes exactly one pass and
  ends through its \<^verbatim>\<open>break\<close>. In eb.ipynb the returned model is the one fitted on all of
  \<^verbatim>\<open>x\<close> and \<^verbatim>\<open>y\<close> and the mask is still all True; in the multi-instrument notebook (whose
  arrays \<^verbatim>\<open>x\<close> and \<^verbatim>\<open>y\<close> have equal lengths) the datasets are returned as they were.
\<close>

theorem no_outlier_single_pass:
  "(length y = length x \<and> fit x y = Some m \<and> length m = length x \<and>
    keep_mask (map2 (-) y m) = replicate (length x) True \<longrightarrow>
      sigma_clip fit x y =
        (Break (\<lparr>model_x = x, model_y = y, mdl = m\<rparr>, replicate (length x) True), 1)) \<and>
   (mfit ds = Some preds \<and>
    list_all (\<lambda>nd. length (d_x (snd nd)) = length (d_y (snd nd)) \<and>
                   dataset_mask preds nd = Inr (replicate (length (d_y (snd nd))) True)) ds \<longrightarrow>
      multi_clip mfit ds = (Break (ds, preds), 1))"
proof (intro conjI impI)
  assume "length y = length x \<and> fit x y = Some m \<and> length m = length x \<and>
    keep_mask (map2 (-) y m) = replicate (length x) True"
  then show "sigma_clip fit x y =
      (Break (\<lparr>model_x = x, model_y = y, mdl = m\<rparr>, replicate (length x) True), 1)"
    by (intro sigma_clip_keeps_all) simp_all
next
  assume a: "mfit ds = Some preds \<and>
    list_all (\<lambda>nd. length (d_x (snd nd)) = length (d_y (snd nd)) \<and>
                   dataset_mask preds nd = Inr (replicate (length (d_y (snd nd))) True)) ds"
  then obtain masks where m: "collect (map (dataset_mask preds) ds) = Inr masks"
    and z: "list_all (\<lambda>c. c = 0) (map2 clipped_of ds masks)"
    using collect_all_kept [of preds ds] by blast
  from z have "list_all (\<lambda>c. c < 10) (map2 clipped_of ds masks)"
    by (rule list.pred_mono_strong) simp
  with a m have "multi_pass mfit ds = Inr (preds, None)"
    unfolding multi_pass_None by blast
  then show "multi_clip mfit ds = (Break (ds, preds), 1)"
    by (simp add: multi_clip_def multi_clip_for_break)
qed

theorem no_outlier_single_pass_witness:
  "sigma_clip zero_fit [2, 3, 4] [- 1, 0, 1] =
     (Break (\<lparr>model_x = [2, 3, 4], model_y = [- 1, 0, 1], mdl = [0, 0, 0]\<rparr>,
             [True, True, True]), 1) \<and>
   multi_clip zero_mfit [(''Kepler'', kepler_core), (''TESS'', tess)] =
     (Break ([(''Kepler'', kepler_core), (''TESS'', tess)],
             the (zero_mfit [(''Kepler'', kepler_core), (''TESS'', tess)])), 1)"
proof -
  let ?ds = "[(''Kepler'', kepler_core), (''TESS'', tess)]"
  have a: "length [- 1, 0, 1 :: real] = length [2, 3, 4 :: real] \<and>
      zero_fit [2, 3, 4] [- 1, 0, 1] = Some [0, 0, 0] \<and>
      length [0, 0, 0 :: real] = length [2, 3, 4 :: real] \<and>
      keep_mask (map2 (-) [- 1, 0, 1] [0, 0, 0]) = replicate (length [2, 3, 4 :: real]) True"
    by (simp add: zero_fit_def keep_mask_code median_def power2_eq_square)
  have b: "zero_mfit ?ds = Some (the (zero_mfit ?ds)) \<and>
      list_all (\<lambda>nd. length (d_x (snd nd)) = length (d_y (snd nd)) \<and>
                 dataset_mask (the (zero_mfit ?ds)) nd =
                   Inr (replicate (length (d_y (snd nd))) True)) ?ds"
    by (simp add: zero_mfit_def dataset_mask_def keep_mask_code median_def power2_eq_square
        kepler_core_def tess_def)
  note t = no_outlier_single_pass [of "[- 1, 0, 1]" "[2, 3, 4]" zero_fit "[0, 0, 0]"
      zero_mfit ?ds "the (zero_mfit ?ds)"]
  from t a have "sigma_clip zero_fit [2, 3, 4] [- 1, 0, 1] =
      (Break (\<lparr>model_x = [2, 3, 4], model_y = [- 1, 0, 1], mdl = [0, 0, 0]\<rparr>,
              replicate (length [2, 3, 4 :: real]) True), 1)"
    by blast
  moreover from t b have "multi_clip zero_mfit ?ds = (Break (?ds, the (zero_mfit ?ds)), 1)"
    by blast
  ultimately show ?thesis by simp
qed

text \<open>
  Claim C9. In the multi-instrument notebook, at any iteration, if every instrument's
  clipped count is below 10 the loop ends there through \<^verbatim>\<open>break\<close> and hands on the
  datasets exactly as that iteration found them: the masks of the last pass are not
  applied. Conversely, whenever the loop ends through \<^verbatim>\<open>break\<close>, the datasets it hands
  on are the ones its last pass was computed on, and that pass flagged fewer than 10
  points of each instrument; those points are still in the data. In the run below the
  point 100 is flagged and stays.
\<close>

theorem break_leaves_datasets_untouched:
  "(mfit ds = Some preds \<and> collect (map (dataset_mask preds) ds) = Inr masks \<and>
    list_all (\<lambda>c. c < 10) (map2 clipped_of ds masks) \<longrightarrow>
      multi_clip_for mfit i ds = (Break (ds, preds), Suc i)) \<and>
   (multi_clip_for mfit i ds = (Break (ds2, preds2), n) \<longrightarrow>
      mfit ds2 = Some preds2 \<and>
      (\<exists>masks2. collect (map (dataset_mask preds2) ds2) = Inr masks2 \<and>
         list_all (\<lambda>c. c < 10) (map2 clipped_of ds2 masks2)))"
proof (intro conjI impI)
  assume "mfit ds = Some preds \<and> collect (map (dataset_mask preds) ds) = Inr masks \<and>
    list_all (\<lambda>c. c < 10) (map2 clipped_of ds masks)"
  then have "multi_pass mfit ds = Inr (preds, None)"
    unfolding multi_pass_None by blast
  then show "multi_clip_for mfit i ds = (Break (ds, preds), Suc i)"
    by (rule multi_clip_for_break)
next
  assume "multi_clip_for mfit i ds = (Break (ds2, preds2), n)"
  then have p: "multi_pass mfit ds2 = Inr (preds2, None)"
    by (rule multi_clip_for_Break)
  then show "mfit ds2 = Some preds2" unfolding multi_pass_None by blast
  from p show "\<exists>masks2. collect (map (dataset_mask preds2) ds2) = Inr masks2 \<and>
         list_all (\<lambda>c. c < 10) (map2 clipped_of ds2 masks2)"
    unfolding multi_pass_None by blast
qed

theorem break_leaves_datasets_untouched_witness:
  "collect (map (dataset_mask (the (zero_mfit [(''Kepler'', spike), (''TESS'', tess)])))
      [(''Kepler'', spike), (''TESS'', tess)]) =
     Inr [[True, True, False], [True, True, True, True, True]] \<and>
   map2 clipped_of [(''Kepler'', spike), (''TESS'', tess)]
      [[True, True, False], [True, True, True, True, True]] = [1, 0] \<and>
   multi_clip_for zero_mfit 0 [(''Kepler'', spike), (''TESS'', tess)] =
     (Break ([(''Kepler'', spike), (''TESS'', tess)],
             the (zero_mfit [(''Kepler'', spike), (''TESS'', tess)])), 1) \<and>
   d_y spike = [0, 1, 100]"
proof -
  let ?ds = "[(''Kepler'', spike), (''TESS'', tess)]"
  let ?masks = "[[True, True, False], [True, True, True, True, True]]"
  have a: "zero_mfit ?ds = Some (the (zero_mfit ?ds))"
    by (simp add: zero_mfit_def)
  have b: "collect (map (dataset_mask (the (zero_mfit ?ds))) ?ds) = Inr ?masks"
    by (simp add: zero_mfit_def dataset_mask_def keep_mask_code median_def power2_eq_square
        spike_def tess_def)
  have c: "map2 clipped_of ?ds ?masks = [1, 0]"
    by (simp add: clipped_of_def count_true_Cons count_true_Nil spike_def tess_def)
  then have d: "list_all (\<lambda>c. c < 10) (map2 clipped_of ?ds ?masks)" by simp
  have e: "d_y spike = [0, 1, 100]" by (simp add: spike_def)
  note t = break_leaves_datasets_untouched [of zero_mfit ?ds "the (zero_mfit ?ds)" ?masks 0]
  from t a b d
  have "multi_clip_for zero_mfit 0 ?ds = (Break (?ds, the (zero_mfit ?ds)), Suc 0)"
    by blast
  with b c e show ?thesis by simp
qed

section \<open>Running the loop again\<close>

text \<open>
  Claim C6, as stated, fails when the loop runs out of iterations. With the data
  \<open>cap_y\<close> and a model that predicts zero, each of the 10 passes of \<^verbatim>\<open>sigma_clip\<close> clips
  one more point; the returned model holds the four points 0, 1, 10, 50, and a second
  run on them clips two of the four. (The local mask of the first run ends on the three
  points 0, 1, 10; a run on those clips one more as well.)
\<close>

theorem sigma_clip_not_idempotent:
  "\<not> idempotent_at zero_fit cap_x cap_y \<and>
   sigma_clip zero_fit cap_x cap_y =
     (Exhausted (\<lparr>model_x = [0, 1, 2, 3], model_y = [0, 1, 10, 50], mdl = [0, 0, 0, 0]\<rparr>,
                 [True, True, True, False, False, False, False, False, False, False, False,
                  False, False]), 10) \<and>
   sigma_clip zero_fit [0, 1, 2, 3] [0, 1, 10, 50] =
     (Break (\<lparr>model_x = [0, 1], model_y = [0, 1], mdl = [0, 0]\<rparr>,
             [True, True, False, False]), 3) \<and>
   sigma_clip zero_fit [0, 1, 2] [0, 1, 10] =
     (Break (\<lparr>model_x = [0, 1], model_y = [0, 1], mdl = [0, 0]\<rparr>,
             [True, True, False]), 2)"
proof -
  have c: "sigma_clip zero_fit [0, 1, 2] [0, 1, 10] =
     (Break (\<lparr>model_x = [0, 1], model_y = [0, 1], mdl = [0, 0]\<rparr>,
             [True, True, False]), 2)"
    by (simp add: eb_eval)
  have a: "sigma_clip zero_fit cap_x cap_y =
     (Exhausted (\<lparr>model_x = [0, 1, 2, 3], model_y = [0, 1, 10, 50], mdl = [0, 0, 0, 0]\<rparr>,
                 [True, True, True, False, False, False, False, False, False, False, False,
                  False, False]), 10)"
    by (simp add: eb_eval cap_x_def cap_y_def)
  have b: "sigma_clip zero_fit [0, 1, 2, 3] [0, 1, 10, 50] =
     (Break (\<lparr>model_x = [0, 1], model_y = [0, 1], mdl = [0, 0]\<rparr>,
             [True, True, False, False]), 3)"
    by (simp add: eb_eval)
  from a b have "\<not> idempotent_at zero_fit cap_x cap_y"
    by (simp add: idempotent_at_def clips_nothing_def)
  with a b c show ?thesis by blast
qed

text \<open>
  Claim C6, amended. When a run of the loop ends through its \<^verbatim>\<open>break\<close>, running the loop
  again on what it returned, with the same fit, makes exactly one pass and removes
  nothing: for eb.ipynb the second run returns the same model with a mask that is all
  True, for the multi-instrument notebook it returns the same datasets and solution.
  Nothing is promised for a run that ends by exhausting its 10 iterations.
\<close>

theorem rerun_after_break_changes_nothing:
  "(sigma_clip fit x y = (Break (ms, msk'), n) \<longrightarrow>
      sigma_clip fit (model_x ms) (model_y ms) =
        (Break (ms, replicate (length (model_x ms)) True), 1) \<and>
      idempotent_at fit x y) \<and>
   (multi_clip mfit ds = (Break (ds', preds), n') \<longrightarrow>
      multi_clip mfit ds' = (Break (ds', preds), 1))"
proof (intro conjI impI)
  assume a: "sigma_clip fit x y = (Break (ms, msk'), n)"
  then show r: "sigma_clip fit (model_x ms) (model_y ms) =
      (Break (ms, replicate (length (model_x ms)) True), 1)"
    by (rule sigma_clip_rerun)
  from a r show "idempotent_at fit x y"
    by (simp add: idempotent_at_def clips_nothing_def list_all_iff)
next
  assume "multi_clip mfit ds = (Break (ds', preds), n')"
  then have "multi_pass mfit ds' = Inr (preds, None)"
    unfolding multi_clip_def by (rule multi_clip_for_Break)
  then show "multi_clip mfit ds' = (Break (ds', preds), 1)"
    by (simp add: multi_clip_def multi_clip_for_break)
qed

theorem rerun_after_break_changes_nothing_witness:
  "sigma_clip zero_fit steep_x steep_y =
     (Break (\<lparr>model_x = [2, 3, 4], model_y = [- 1, 0, 1], mdl = [0, 0, 0]\<rparr>,
             [False, False, True, True, True, False, False]), 3) \<and>
   sigma_clip zero_fit [2, 3, 4] [- 1, 0, 1] =
     (Break (\<lparr>model_x = [2, 3, 4], model_y = [- 1, 0, 1], mdl = [0, 0, 0]\<rparr>,
             [True, True, True]), 1) \<and>
   idempotent_at zero_fit steep_x steep_y \<and>
   multi_clip zero_mfit [(''Kepler'', kepler), (''TESS'', tess)] =
     (Break ([(''Kepler'', kepler_core), (''TESS'', tess)],
             the (zero_mfit [(''Kepler'', kepler_core), (''TESS'', tess)])), 3) \<and>
   multi_clip zero_mfit [(''Kepler'', kepler_core), (''TESS'', tess)] =
     (Break ([(''Kepler'', kepler_core), (''TESS'', tess)],
             the (zero_mfit [(''Kepler'', kepler_core), (''TESS'', tess)])), 1)"
proof -
  let ?ds = "[(''Kepler'', kepler), (''TESS'', tess)]"
  let ?core = "[(''Kepler'', kepler_core), (''TESS'', tess)]"
  let ?ms = "\<lparr>model_x = [2, 3, 4], model_y = [- 1, 0, 1], mdl = [0, 0, 0]\<rparr>"
  let ?m = "[False, False, True, True, True, False, False]"
  have a: "sigma_clip zero_fit steep_x steep_y = (Break (?ms, ?m), 3)"
    by (simp add: eb_eval steep_x_def steep_y_def)
  have b: "multi_clip zero_mfit ?ds = (Break (?core, the (zero_mfit ?core)), 3)"
    by (simp add: multi_eval kepler_def tess_def kepler_core_def)
  note t = rerun_after_break_changes_nothing [of zero_fit steep_x steep_y ?ms ?m 3
      zero_mfit ?ds ?core "the (zero_mfit ?core)" 3]
  from t a have c: "sigma_clip zero_fit (model_x ?ms) (model_y ?ms) =
        (Break (?ms, replicate (length (model_x ?ms)) True), 1) \<and>
      idempotent_at zero_fit steep_x steep_y"
    by blast
  from t b have d: "multi_clip zero_mfit ?core = (Break (?core, the (zero_mfit ?core)), 1)"
    by blast
  from c have "sigma_clip zero_fit [2, 3, 4] [- 1, 0, 1] = (Break (?ms, [True, True, True]), 1)"
    by simp
  with a b c d show ?thesis by blast
qed

section \<open>No lower bound on the surviving points\<close>

lemma median_replicate: "0 < n \<Longrightarrow> median (replicate n c) = c"
proof -
  assume n: "0 < n"
  have s: "sort (replicate n c) = replicate n c"
    by (simp add: sorted_sort_id)
  have "n div 2 < n" using n by simp
  then have a: "replicate n c ! (n div 2) = c" by (rule nth_replicate)
  have "n div 2 - 1 < n" using n by arith
  then have b: "replicate n c ! (n div 2 - 1) = c" by (rule nth_replicate)
  show ?thesis unfolding median_def Let_def s using a b n by simp
qed

lemma keep_mask_constant: "keep_mask (replicate n c) = replicate n False"
proof (cases "n = 0")
  case True
  then show ?thesis by (simp add: keep_mask_def)
next
  case False
  then show ?thesis by (simp add: keep_mask_code median_replicate)
qed

text \<open>
  Claim C7. Nothing in either loop keeps a minimum number of points. There are data and
  a fit for which \<^verbatim>\<open>sigma_clip\<close> returns normally with a model on fewer than half of the
  points (3 of the 7 points of \<open>steep_y\<close>), and data for which the multi-instrument
  loop returns normally with fewer than half of the points (16 of 36). A single pass
  can even reject every point: when all residuals are equal, as for a model that
  reproduces the data, the scale is 0 and the strict comparison fails everywhere.
\<close>

theorem no_minimum_sample_size:
  "(\<exists>fit x y ms msk' n.
      sigma_clip fit x y = (Break (ms, msk'), n) \<and> 2 * length (model_y ms) < length y) \<and>
   (\<exists>mfit ds ds' preds n.
      multi_clip mfit ds = (Break (ds', preds), n) \<and> 2 * points ds' < points ds) \<and>
   keep_mask (replicate k c) = replicate k False"
proof (intro conjI)
  let ?ms = "\<lparr>model_x = [2, 3, 4], model_y = [- 1, 0, 1], mdl = [0, 0, 0]\<rparr>"
  let ?m = "[False, False, True, True, True, False, False]"
  have "sigma_clip zero_fit steep_x steep_y = (Break (?ms, ?m), 3)"
    by (simp add: eb_eval steep_x_def steep_y_def)
  moreover have "2 * length (model_y ?ms) < length steep_y"
    by (simp add: steep_y_def)
  ultimately show "\<exists>fit x y ms msk' n.
      sigma_clip fit x y = (Break (ms, msk'), n) \<and> 2 * length (model_y ms) < length y"
    by blast
next
  let ?ds = "[(''Kepler'', kepler), (''TESS'', tess)]"
  let ?core = "[(''Kepler'', kepler_core), (''TESS'', tess)]"
  have "multi_clip zero_mfit ?ds = (Break (?core, the (zero_mfit ?core)), 3)"
    by (simp add: multi_eval kepler_def tess_def kepler_core_def)
  moreover have "2 * points ?core < points ?ds"
    by (simp add: points_def kepler_def tess_def kepler_core_def)
  ultimately show "\<exists>mfit ds ds' preds n.
      multi_clip mfit ds = (Break (ds', preds), n) \<and> 2 * points ds' < points ds"
    by blast
next
  show "keep_mask (replicate k c) = replicate k False"
    by (rule keep_mask_constant)
qed

section \<open>Staged optimisation never loses log-posterior\<close>

lemma foldl_nondecreasing:
  fixes logp :: "'p \<Rightarrow> real"
  assumes step: "\<And>soln name. logp soln \<le> logp (f soln name)"
  shows "logp soln \<le> logp (foldl f soln names)"
proof (induction names arbitrary: soln)
  case Nil
  show ?case by simp
next
  case (Cons name names)
  have "logp soln \<le> logp (f soln name)" by (rule step)
  also have "\<dots> \<le> logp (foldl f (f soln name) names)" by (rule Cons.IH)
  finally show ?case by simp
qed

text \<open>
  Claim C4. Suppose every call of the external optimiser returns a point whose
  log-posterior is at least that of the point it started from. Then from every starting
  point the staged chains of eb.ipynb, of ttv.ipynb and of the multi-instrument
  notebook (for any list of instrument names) return a point whose log-posterior is at
  least that of the starting point.
\<close>

theorem staged_optimize_nondecreasing:
  fixes logp :: "'p \<Rightarrow> real"
  assumes opt: "\<forall>soln vars. logp soln \<le> logp (optimize soln vars)"
  shows "logp test_point \<le> logp (eb_optimize optimize test_point) \<and>
         logp test_point \<le> logp (ttv_optimize optimize test_point) \<and>
         logp test_point \<le> logp (multi_optimize optimize test_point names)"
proof (intro conjI)
  have step: "logp soln \<le> logp (optimize soln vars)" for soln vars
    using opt by simp
  have two: "logp a \<le> logp (optimize (optimize b v) w)" if "logp a \<le> logp b" for a b v w
    using that step [of b v] step [of "optimize b v" w] by linarith
  have one: "logp a \<le> logp (optimize b v)" if "logp a \<le> logp b" for a b v
    using that step [of b v] by linarith
  show "logp test_point \<le> logp (eb_optimize optimize test_point)"
    unfolding eb_optimize_def Let_def by (intro one order_refl)
  show "logp test_point \<le> logp (ttv_optimize optimize test_point)"
    unfolding ttv_optimize_def Let_def by (intro one order_refl)
  let ?f = "\<lambda>soln name. optimize soln (Some (parameters name))"
  let ?g = "\<lambda>soln name. optimize (optimize soln (Some (parameters name @ [''dur'', ''b''])))
              (Some (noise_parameters name))"
  have "logp test_point \<le> logp (foldl ?f test_point names)"
    by (rule foldl_nondecreasing) (rule step)
  also have "\<dots> \<le> logp (foldl ?g (foldl ?f test_point names) names)"
    by (rule foldl_nondecreasing) (intro two order_refl)
  also have "\<dots> \<le> logp (optimize (foldl ?g (foldl ?f test_point names) names) None)"
    by (rule step)
  finally show "logp test_point \<le> logp (multi_optimize optimize test_point names)"
    by (simp add: multi_optimize_def Let_def)
qed

lemma toy_optimize_improves: "toy_logp \<theta> \<le> toy_logp (toy_optimize \<theta> vars)"
proof (cases vars)
  case None
  then show ?thesis by (simp add: toy_logp_def toy_optimize_def)
next
  case (Some vs)
  have "toy_optimize \<theta> vars - 3 = (\<theta> - 3) / 2"
    using Some by (simp add: toy_optimize_def)
  then have "(toy_optimize \<theta> vars - 3)\<^sup>2 = (\<theta> - 3)\<^sup>2 / 4"
    by (simp only: power_divide) simp
  moreover have "0 \<le> (\<theta> - 3)\<^sup>2" by simp
  ultimately show ?thesis unfolding toy_logp_def by linarith
qed

theorem staged_optimize_nondecreasing_witness:
  "toy_logp 11 \<le> toy_logp (eb_optimize toy_optimize 11) \<and>
   toy_logp 11 \<le> toy_logp (ttv_optimize toy_optimize 11) \<and>
   toy_logp 11 \<le> toy_logp (multi_optimize toy_optimize 11 [''Kepler'', ''TESS'']) \<and>
   toy_logp 11 = - 64 \<and>
   eb_optimize toy_optimize 11 = 3 \<and> ttv_optimize toy_optimize 11 = 3"
proof -
  have "\<forall>soln vars. toy_logp soln \<le> toy_logp (toy_optimize soln vars)"
    using toy_optimize_improves by simp
  from staged_optimize_nondecreasing [OF this, of 11 "[''Kepler'', ''TESS'']"]
  have "toy_logp 11 \<le> toy_logp (eb_optimize toy_optimize 11) \<and>
    toy_logp 11 \<le> toy_logp (ttv_optimize toy_optimize 11) \<and>
    toy_logp 11 \<le> toy_logp (multi_optimize toy_optimize 11 [''Kepler'', ''TESS''])" .
  moreover have "toy_logp 11 = - 64"
    by (simp add: toy_logp_def)
  moreover have "eb_optimize toy_optimize 11 = 3 \<and> ttv_optimize toy_optimize 11 = 3"
    by (simp add: toy_optimize_def eb_optimize_def ttv_optimize_def)
  ultimately show ?thesis by blast
qed

section \<open>The script under errexit\<close>

lemma before_Cons: "before l ((k, s) # rest) = (if k = l then [] else (k, s) # before l rest)"
  by (simp add: before_def)

lemma reached_under_errexit:
  "errexit sh \<Longrightarrow> l \<in> set (executed (run st script sh)) \<Longrightarrow> l \<notin> set (executed sh)
     \<Longrightarrow> list_all (\<lambda>k. st k = 0) (simple_lines (before l script))"
proof (induction script arbitrary: sh)
  case Nil
  then show ?case by (simp add: before_def)
next
  case (Cons p rest)
  obtain k s where p: "p = (k, s)" by (cases p)
  show ?case
  proof (cases "k = l")
    case True
    with p show ?thesis by (simp add: before_Cons)
  next
    case False
    show ?thesis
    proof (cases s)
      case SetErrexit
      let ?sh = "sh\<lparr>errexit := True, executed := executed sh @ [k], status := 0\<rparr>"
      have "list_all (\<lambda>k. st k = 0) (simple_lines (before l rest))"
        using Cons.IH [of ?sh] Cons.prems p SetErrexit False by simp
      with p SetErrexit False show ?thesis by (simp add: before_Cons)
    next
      case (Simple c)
      let ?sh = "sh\<lparr>executed := executed sh @ [k], status := st k\<rparr>"
      have ok: "st k = 0"
      proof (rule ccontr)
        assume "st k \<noteq> 0"
        with Cons.prems p Simple False show False by (simp add: Let_def)
      qed
      then have "list_all (\<lambda>k. st k = 0) (simple_lines (before l rest))"
        using Cons.IH [of ?sh] Cons.prems p Simple False by (simp add: Let_def)
      with p Simple False ok show ?thesis by (simp add: before_Cons)
    next
      case (OrTrue c)
      let ?sh = "sh\<lparr>executed := executed sh @ [k], status := 0\<rparr>"
      have "list_all (\<lambda>k. st k = 0) (simple_lines (before l rest))"
        using Cons.IH [of ?sh] Cons.prems p OrTrue False by simp
      with p OrTrue False show ?thesis by (simp add: before_Cons)
    qed
  qed
qed

lemma script_head: "run_notebooks_sh = (3, SetErrexit) # tl run_notebooks_sh"
  by (simp add: run_notebooks_sh_def)

lemma reached_in_script:
  assumes "l \<in> set (executed (run st run_notebooks_sh start))"
  shows "list_all (\<lambda>k. st k = 0) (simple_lines (before l run_notebooks_sh))"
proof (cases "l = 3")
  case True
  then show ?thesis by (subst script_head) (simp add: before_Cons)
next
  case False
  let ?sh = "start\<lparr>errexit := True, executed := executed start @ [3], status := 0\<rparr>"
  have "run st run_notebooks_sh start = run st (tl run_notebooks_sh) ?sh"
    by (subst script_head) simp
  with assms have b: "l \<in> set (executed (run st (tl run_notebooks_sh) ?sh))" by simp
  have a: "errexit ?sh" by simp
  have c: "l \<notin> set (executed ?sh)" using False by (simp add: start_def)
  from reached_under_errexit [OF a b c]
  have "list_all (\<lambda>k. st k = 0) (simple_lines (before l (tl run_notebooks_sh)))" .
  with False show ?thesis by (subst script_head) (simp add: before_Cons)
qed

text \<open>
  Claim C8. If the notebook run of line 31 exits with a nonzero status, none of the
  later lines runs: not the copy, the two \<^verbatim>\<open>git add\<close>, the commit, the forced push or the
  mail. More generally a line of the script is only ever reached when every simple
  command before it returned 0 (the command of line 25 is exempt, being the left side
  of \<^verbatim>\<open>|| true\<close>), so no publishing or notification step follows a failed step.
\<close>

theorem notebook_failure_blocks_publishing:
  "(st 31 \<noteq> 0 \<longrightarrow>
      list_all (\<lambda>l. l \<notin> set (executed (run st run_notebooks_sh start)))
        [33, 34, 35, 37, 38, 40, 41, 42, 44]) \<and>
   (l \<in> set (executed (run st run_notebooks_sh start)) \<longrightarrow>
      list_all (\<lambda>k. st k = 0) (simple_lines (before l run_notebooks_sh)))"
proof
  show "st 31 \<noteq> 0 \<longrightarrow>
      list_all (\<lambda>l. l \<notin> set (executed (run st run_notebooks_sh start)))
        [33, 34, 35, 37, 38, 40, 41, 42, 44]"
  proof
    assume fail: "st 31 \<noteq> 0"
    have "l \<notin> set (executed (run st run_notebooks_sh start))"
      if "31 \<in> set (simple_lines (before l run_notebooks_sh))" for l
    proof
      assume "l \<in> set (executed (run st run_notebooks_sh start))"
      then have "list_all (\<lambda>k. st k = 0) (simple_lines (before l run_notebooks_sh))"
        by (rule reached_in_script)
      with that have "st 31 = 0" by (simp add: list_all_iff)
      with fail show False by simp
    qed
    then show "list_all (\<lambda>l. l \<notin> set (executed (run st run_notebooks_sh start)))
        [33, 34, 35, 37, 38, 40, 41, 42, 44]"
      by (simp add: run_notebooks_sh_def before_Cons)
  qed
  show "l \<in> set (executed (run st run_notebooks_sh start)) \<longrightarrow>
      list_all (\<lambda>k. st k = 0) (simple_lines (before l run_notebooks_sh))"
    using reached_in_script by blast
qed

theorem notebook_failure_blocks_publishing_witness:
  "notebooks_fail 31 \<noteq> 0 \<and>
   list_all (\<lambda>l. l \<notin> set (executed (run notebooks_fail run_notebooks_sh start)))
        [33, 34, 35, 37, 38, 40, 41, 42, 44] \<and>
   executed (run notebooks_fail run_notebooks_sh start) =
     [3, 5, 6, 7, 8, 10, 11, 12, 13, 15, 16, 17, 18, 19, 21, 22, 23, 25, 26, 28, 29, 31] \<and>
   status (run notebooks_fail run_notebooks_sh start) = 1 \<and>
   list_all (\<lambda>k. notebooks_fail k = 0) (simple_lines (before 29 run_notebooks_sh))"
proof -
  have f: "notebooks_fail 31 \<noteq> 0" by (simp add: notebooks_fail_def)
  have e: "executed (run notebooks_fail run_notebooks_sh start) =
     [3, 5, 6, 7, 8, 10, 11, 12, 13, 15, 16, 17, 18, 19, 21, 22, 23, 25, 26, 28, 29, 31]
     \<and> status (run notebooks_fail run_notebooks_sh start) = 1"
    by (simp add: run_notebooks_sh_def start_def notebooks_fail_def)
  then have r: "29 \<in> set (executed (run notebooks_fail run_notebooks_sh start))" by simp
  from notebook_failure_blocks_publishing [of notebooks_fail 29] f r e show ?thesis by simp
qed

text \<open>
  Claim C10. If the commit of line 37 exits with a nonzero status (as \<^verbatim>\<open>git commit\<close> does
  when there is nothing to commit), the forced push of line 38 and the mail of line 44
  never run. This is so even when every command before the commit, the notebook run of
  line 31 included, returned 0: the script then runs up to line 37 and exits there
  with the commit's status.
\<close>

theorem commit_failure_blocks_push_and_mail:
  "(st 37 \<noteq> 0 \<longrightarrow>
      38 \<notin> set (executed (run st run_notebooks_sh start)) \<and>
      44 \<notin> set (executed (run st run_notebooks_sh start))) \<and>
   (list_all (\<lambda>k. st k = 0) (simple_lines (before 37 run_notebooks_sh)) \<and> st 37 \<noteq> 0 \<longrightarrow>
      executed (run st run_notebooks_sh start) =
        [3, 5, 6, 7, 8, 10, 11, 12, 13, 15, 16, 17, 18, 19, 21, 22, 23, 25, 26, 28, 29, 31,
         33, 34, 35, 37] \<and>
      status (run st run_notebooks_sh start) = st 37)"
proof
  show "st 37 \<noteq> 0 \<longrightarrow>
      38 \<notin> set (executed (run st run_notebooks_sh start)) \<and>
      44 \<notin> set (executed (run st run_notebooks_sh start))"
  proof
    assume fail: "st 37 \<noteq> 0"
    have "l \<notin> set (executed (run st run_notebooks_sh start))"
      if "37 \<in> set (simple_lines (before l run_notebooks_sh))" for l
    proof
      assume "l \<in> set (executed (run st run_notebooks_sh start))"
      then have "list_all (\<lambda>k. st k = 0) (simple_lines (before l run_notebooks_sh))"
        by (rule reached_in_script)
      with that have "st 37 = 0" by (simp add: list_all_iff)
      with fail show False by simp
    qed
    then show "38 \<notin> set (executed (run st run_notebooks_sh start)) \<and>
      44 \<notin> set (executed (run st run_notebooks_sh start))"
      by (simp add: run_notebooks_sh_def before_Cons)
  qed
  show "list_all (\<lambda>k. st k = 0) (simple_lines (before 37 run_notebooks_sh)) \<and> st 37 \<noteq> 0 \<longrightarrow>
      executed (run st run_notebooks_sh start) =
        [3, 5, 6, 7, 8, 10, 11, 12, 13, 15, 16, 17, 18, 19, 21, 22, 23, 25, 26, 28, 29, 31,
         33, 34, 35, 37] \<and>
      status (run st run_notebooks_sh start) = st 37"
    by (simp add: run_notebooks_sh_def before_Cons start_def)
qed

theorem commit_failure_blocks_push_and_mail_witness:
  "commit_fails 37 \<noteq> 0 \<and> commit_fails 31 = 0 \<and>
   38 \<notin> set (executed (run commit_fails run_notebooks_sh start)) \<and>
   44 \<notin> set (executed (run commit_fails run_notebooks_sh start)) \<and>
   executed (run commit_fails run_notebooks_sh start) =
        [3, 5, 6, 7, 8, 10, 11, 12, 13, 15, 16, 17, 18, 19, 21, 22, 23, 25, 26, 28, 29, 31,
         33, 34, 35, 37] \<and>
   status (run commit_fails run_notebooks_sh start) = 1"
proof -
  have f: "commit_fails 37 \<noteq> 0" "commit_fails 31 = 0" by (simp_all add: commit_fails_def)
  have ok: "list_all (\<lambda>k. commit_fails k = 0) (simple_lines (before 37 run_notebooks_sh))"
    by (simp add: run_notebooks_sh_def before_Cons commit_fails_def)
  from commit_failure_blocks_push_and_mail [of commit_fails] f ok show ?thesis
    by (simp add: commit_fails_def)
qed

end
